theory Spec2Isabelle
  imports Main
begin

section \<open>Data model of JanggiEngine.py\<close>

text \<open>
  The engine stores every square as a two-character string: \<^verbatim>\<open>"--"\<close> for an empty
  square, otherwise a colour letter (\<^verbatim>\<open>R\<close>, \<^verbatim>\<open>B\<close>) followed by a piece letter
  (\<^verbatim>\<open>P R H C E G K\<close>). A square is modelled as an optional pair: \<open>None\<close> is
  \<^verbatim>\<open>"--"\<close>, \<open>Some (RED, Rook)\<close> is \<^verbatim>\<open>"RR"\<close>, \<open>Some (BLUE, General)\<close> is
  \<^verbatim>\<open>"BK"\<close>. The test \<^verbatim>\<open>piece[0] == "R"\<close> becomes \<open>side_of piece = Some RED\<close>, the
  test \<^verbatim>\<open>piece[0] != "-"\<close> becomes \<open>piece \<noteq> None\<close>, and \<^verbatim>\<open>piece[1] == "C"\<close> becomes
  \<open>kind_of piece = Some Cannon\<close>. The turn strings \<^verbatim>\<open>"RED"\<close>, \<^verbatim>\<open>"BLUE"\<close> and the
  game states \<^verbatim>\<open>"UNFINISHED"\<close>, \<^verbatim>\<open>"RED_WON"\<close>, \<^verbatim>\<open>"BLUE_WON"\<close> are enumerations.
\<close>

datatype side = RED | BLUE

datatype kind = Pawn | Rook | Horse | Cannon | Elephant | Guard | General

datatype status = UNFINISHED | RED_WON | BLUE_WON

type_synonym cell = "(side \<times> kind) option"

type_synonym grid = "cell list list"

definition side_of :: "cell \<Rightarrow> side option" where
  "side_of p = map_option fst p"

definition kind_of :: "cell \<Rightarrow> kind option" where
  "kind_of p = map_option snd p"

fun other :: "side \<Rightarrow> side" where
  "other RED = BLUE"
| "other BLUE = RED"

text \<open>
  Rows and columns are Python integers. Every read \<^verbatim>\<open>board[r][c]\<close> of the source is
  either at a square of the scan \<^verbatim>\<open>range(0, 10)\<close> by \<^verbatim>\<open>range(0, 9)\<close> or behind a
  range test on both indices, so the read is modelled on the list of rows directly.
\<close>

definition cell_at :: "grid \<Rightarrow> int \<Rightarrow> int \<Rightarrow> cell" where
  "cell_at b r c = b ! nat r ! nat c"

definition set_cell :: "grid \<Rightarrow> int \<Rightarrow> int \<Rightarrow> cell \<Rightarrow> grid" where
  "set_cell b r c v = b[nat r := (b ! nat r)[nat c := v]]"

definition on_board :: "int \<Rightarrow> int \<Rightarrow> bool" where
  "on_board r c = (0 \<le> r \<and> r \<le> 9 \<and> 0 \<le> c \<and> c \<le> 8)"

definition wf_board :: "grid \<Rightarrow> bool" where
  "wf_board b = (length b = 10 \<and> list_all (\<lambda>row. length row = 9) b)"

record move =
  startRow :: int
  startCol :: int
  endRow :: int
  endCol :: int
  pieceMoved :: cell
  pieceCaptured :: cell

text \<open>The constructor \<^verbatim>\<open>Move(startSq, endSq, board)\<close>: a snapshot of the two squares.\<close>

definition Move :: "int \<times> int \<Rightarrow> int \<times> int \<Rightarrow> grid \<Rightarrow> move" where
  "Move startSq endSq b =
     \<lparr> startRow = fst startSq, startCol = snd startSq,
       endRow = fst endSq, endCol = snd endSq,
       pieceMoved = cell_at b (fst startSq) (snd startSq),
       pieceCaptured = cell_at b (fst endSq) (snd endSq) \<rparr>"

record game =
  board :: grid
  game_state :: status
  moveLog :: "move list"
  player_turn :: side
  checkmate :: bool
  player_red :: "bool option"
  player_blue :: "bool option"

definition initial_board :: grid where
  "initial_board =
    [[Some (RED, Rook), Some (RED, Elephant), Some (RED, Horse), Some (RED, Guard), None,
      Some (RED, Guard), Some (RED, Elephant), Some (RED, Horse), Some (RED, Rook)],
     [None, None, None, None, Some (RED, General), None, None, None, None],
     [None, Some (RED, Cannon), None, None, None, None, None, Some (RED, Cannon), None],
     [Some (RED, Pawn), None, Some (RED, Pawn), None, Some (RED, Pawn), None,
      Some (RED, Pawn), None, Some (RED, Pawn)],
     [None, None, None, None, None, None, None, None, None],
     [None, None, None, None, None, None, None, None, None],
     [Some (BLUE, Pawn), None, Some (BLUE, Pawn), None, Some (BLUE, Pawn), None,
      Some (BLUE, Pawn), None, Some (BLUE, Pawn)],
     [None, Some (BLUE, Cannon), None, None, None, None, None, Some (BLUE, Cannon), None],
     [None, None, None, None, Some (BLUE, General), None, None, None, None],
     [Some (BLUE, Rook), Some (BLUE, Elephant), Some (BLUE, Horse), Some (BLUE, Guard), None,
      Some (BLUE, Guard), Some (BLUE, Elephant), Some (BLUE, Horse), Some (BLUE, Rook)]]"

definition initial_game :: game where
  "initial_game =
     \<lparr> board = initial_board, game_state = UNFINISHED, moveLog = [], player_turn = RED,
       checkmate = False, player_red = None, player_blue = None \<rparr>"

definition set_player_turn :: "game \<Rightarrow> game" where
  "set_player_turn s =
     (if player_turn s = RED then s\<lparr>player_turn := BLUE\<rparr> else s\<lparr>player_turn := RED\<rparr>)"

section \<open>Piece geometry\<close>

text \<open>
  Each \<^verbatim>\<open>get_*_moves(row, col, moves)\<close> appends to the shared list \<^verbatim>\<open>moves\<close>; the
  model takes the list and returns it extended. The RED and the BLUE branch of a method
  are the same text with the colour letters exchanged, so the shared text is one helper
  with the moving side \<open>me\<close> as a parameter; where the two branches differ (palace
  tables, zone tests, loop nesting) the difference is written out in the method.
\<close>

definition directions :: "(int \<times> int) list" where
  "directions = [(1, 0), (-1, 0), (0, -1), (0, 1)]"

definition diagnolCor :: "(int \<times> int) list" where
  "diagnolCor = [(-1, -1), (1, -1), (-1, 1), (1, 1)]"

definition check_directions :: "(int \<times> int) list" where
  "check_directions = [(1, -1), (-1, -1), (1, -1), (-1, 1)]"

definition right_directions :: "(int \<times> int) list" where
  "right_directions = [(1, 1), (-1, 1), (-1, -1), (1, 1)]"

definition red_palace_points :: "(int \<times> int) list" where
  "red_palace_points = [(0, 3), (2, 3), (0, 5), (2, 5), (1, 4)]"

definition blue_palace_points :: "(int \<times> int) list" where
  "blue_palace_points = [(9, 3), (7, 3), (9, 5), (7, 5), (8, 4)]"

definition all_palace_points :: "(int \<times> int) list" where
  "all_palace_points =
     [(9, 3), (7, 3), (9, 5), (7, 5), (8, 4), (0, 3), (2, 3), (0, 5), (2, 5), (1, 4)]"

definition red_zone :: "int \<Rightarrow> int \<Rightarrow> bool" where
  "red_zone r c = (0 \<le> r \<and> r \<le> 2 \<and> 3 \<le> c \<and> c \<le> 5)"

definition blue_zone :: "int \<Rightarrow> int \<Rightarrow> bool" where
  "blue_zone r c = (7 \<le> r \<and> r \<le> 9 \<and> 3 \<le> c \<and> c \<le> 5)"

definition any_zone :: "int \<Rightarrow> int \<Rightarrow> bool" where
  "any_zone r c = (blue_zone r c \<or> red_zone r c)"

text \<open>
  \<^verbatim>\<open>if p == "--": append  elif p[0] == enemy: append\<close>, the body of the one-step moves of
  the pawn, the guards and the general.
\<close>

definition step_onto :: "side \<Rightarrow> grid \<Rightarrow> int \<Rightarrow> int \<Rightarrow> int \<Rightarrow> int \<Rightarrow> move list \<Rightarrow> move list" where
  "step_onto me b row col er ec moves =
     (if cell_at b er ec = None then moves @ [Move (row, col) (er, ec) b]
      else if side_of (cell_at b er ec) = Some (other me) then moves @ [Move (row, col) (er, ec) b]
      else moves)"

text \<open>
  The palace loop shared by the pawn, the rook, the guards and the general:
  \<^verbatim>\<open>for i in diagonalPos: if row == i[0] and col == i[1]: for c in diagnolCor: ...\<close>
  with two separate \<^verbatim>\<open>if\<close> statements on the target square.
\<close>

definition diag_target :: "side \<Rightarrow> (int \<Rightarrow> int \<Rightarrow> bool) \<Rightarrow> grid \<Rightarrow> int \<Rightarrow> int \<Rightarrow> int \<times> int \<Rightarrow> move list \<Rightarrow> move list" where
  "diag_target me zone b row col c moves =
     (let dRow = row + fst c; dCol = col + snd c in
      if zone dRow dCol then
        (let diagPiece = cell_at b dRow dCol;
             m1 = (if diagPiece = None then moves @ [Move (row, col) (dRow, dCol) b] else moves)
         in if side_of diagPiece = Some (other me) then m1 @ [Move (row, col) (dRow, dCol) b] else m1)
      else moves)"

definition palace_diag :: "side \<Rightarrow> (int \<times> int) list \<Rightarrow> (int \<Rightarrow> int \<Rightarrow> bool) \<Rightarrow> grid \<Rightarrow> int \<Rightarrow> int \<Rightarrow> move list \<Rightarrow> move list" where
  "palace_diag me diagonalPos zone b row col moves =
     fold (\<lambda>i ms. if row = fst i \<and> col = snd i
                   then fold (diag_target me zone b row col) diagnolCor ms else ms)
          diagonalPos moves"

subsection \<open>Pawn\<close>

definition get_pawn_moves :: "game \<Rightarrow> int \<Rightarrow> int \<Rightarrow> move list \<Rightarrow> move list" where
  "get_pawn_moves s row col moves =
     (let b = board s in
      if player_turn s = RED then
        (let m1 = (if 0 \<le> row + 1 \<and> row + 1 \<le> 9
                   then step_onto RED b row col (row + 1) col moves else moves);
             m2 = (if 0 \<le> col + 1 \<and> col + 1 \<le> 8
                   then step_onto RED b row col row (col + 1) m1 else m1);
             m3 = (if 0 \<le> col - 1 \<and> col - 1 \<le> 8
                   then step_onto RED b row col row (col - 1) m2 else m2)
         in palace_diag RED red_palace_points blue_zone b row col m3)
      else
        (let m1 = (if 0 \<le> row - 1 \<and> row - 1 \<le> 9
                   then step_onto BLUE b row col (row - 1) col moves else moves);
             m2 = (if 0 \<le> col + 1 \<and> col + 1 \<le> 8
                   then step_onto BLUE b row col row (col + 1) m1 else m1);
             m3 = (if 0 \<le> col - 1 \<and> col - 1 \<le> 8
                   then step_onto BLUE b row col row (col - 1) m2 else m2)
         in palace_diag BLUE blue_palace_points red_zone b row col m3))"

subsection \<open>Rook\<close>

text \<open>
  One iteration of \<^verbatim>\<open>for i in range(1, 10)\<close> along direction \<open>d\<close>; the loop state is
  the flag \<^verbatim>\<open>mark\<close> and the list.
\<close>

definition rook_step :: "side \<Rightarrow> grid \<Rightarrow> int \<Rightarrow> int \<Rightarrow> int \<times> int \<Rightarrow> int \<Rightarrow> nat \<times> move list \<Rightarrow> nat \<times> move list" where
  "rook_step me b row col d i st =
     (let mark = fst st; moves = snd st;
          endRow = row + fst d * i; endCol = col + snd d * i in
      if 0 \<le> endRow \<and> endRow \<le> 9 \<and> 0 \<le> endCol \<and> endCol \<le> 8 then
        (let endPiece = cell_at b endRow endCol in
         if mark = 0 then
           (if side_of endPiece = Some me then (1, moves)
            else if endPiece = None then (mark, moves @ [Move (row, col) (endRow, endCol) b])
            else if side_of endPiece = Some (other me)
                 then (1, moves @ [Move (row, col) (endRow, endCol) b])
            else (mark, moves))
         else (mark, moves))
      else (mark, moves))"

definition rook_slide :: "side \<Rightarrow> grid \<Rightarrow> int \<Rightarrow> int \<Rightarrow> int \<times> int \<Rightarrow> move list \<Rightarrow> move list" where
  "rook_slide me b row col d moves = snd (fold (rook_step me b row col d) [1..9] (0, moves))"

text \<open>
  In the RED branch the palace loop is indented inside \<^verbatim>\<open>for d in directions\<close> and so
  runs once per direction; in the BLUE branch it follows the direction loop.
\<close>

definition rook_red_direction :: "grid \<Rightarrow> int \<Rightarrow> int \<Rightarrow> int \<times> int \<Rightarrow> move list \<Rightarrow> move list" where
  "rook_red_direction b row col d moves =
     palace_diag RED all_palace_points any_zone b row col (rook_slide RED b row col d moves)"

definition get_rook_moves :: "game \<Rightarrow> int \<Rightarrow> int \<Rightarrow> move list \<Rightarrow> move list" where
  "get_rook_moves s row col moves =
     (let b = board s in
      if player_turn s = RED then
        fold (rook_red_direction b row col) directions moves
      else
        palace_diag BLUE all_palace_points any_zone b row col
          (fold (rook_slide BLUE b row col) directions moves))"

subsection \<open>Horse\<close>

text \<open>
  The counter \<^verbatim>\<open>i\<close> is incremented once per direction, so the \<open>i\<close>-th direction is
  paired with the \<open>i\<close>-th entry of each offset table.
\<close>

definition horse_leg :: "side \<Rightarrow> grid \<Rightarrow> int \<Rightarrow> int \<Rightarrow> (int \<times> int) \<times> (int \<times> int) \<times> (int \<times> int) \<Rightarrow> move list \<Rightarrow> move list" where
  "horse_leg me b row col dlr moves =
     (let d = fst dlr; endRow = row + fst d; endCol = col + snd d in
      if 0 \<le> endRow \<and> endRow \<le> 9 \<and> 0 \<le> endCol \<and> endCol \<le> 8 then
        (let endPiece = cell_at b endRow endCol;
             mark = (if endPiece \<noteq> None then 3 else (0::nat)) in
         if mark = 0 then
           (let left_row = fst (fst (snd dlr)); left_col = snd (fst (snd dlr));
                m1 = (if 0 \<le> endRow + left_row \<and> endRow + left_row \<le> 9
                         \<and> 0 \<le> endCol + left_col \<and> endCol + left_col \<le> 8
                      then (if mark = 0 \<and> side_of (cell_at b (endRow + left_row) (endCol + left_col)) \<noteq> Some me
                            then moves @ [Move (row, col) (endRow + left_row, endCol + left_col) b]
                            else moves)
                      else moves);
                right_row = fst (snd (snd dlr)); right_col = snd (snd (snd dlr))
            in if 0 \<le> endRow + right_row \<and> endRow + right_row \<le> 9
                  \<and> 0 \<le> endCol + right_col \<and> endCol + right_col \<le> 8
               then (if side_of (cell_at b (endRow + right_row) (endCol + right_col)) \<noteq> Some me
                     then m1 @ [Move (row, col) (endRow + right_row, endCol + right_col) b]
                     else m1)
               else m1)
         else moves)
      else moves)"

definition get_horse_moves :: "game \<Rightarrow> int \<Rightarrow> int \<Rightarrow> move list \<Rightarrow> move list" where
  "get_horse_moves s row col moves =
     (if player_turn s = RED
      then fold (horse_leg RED (board s) row col)
             (zip directions (zip check_directions right_directions)) moves
      else fold (horse_leg BLUE (board s) row col)
             (zip directions (zip check_directions right_directions)) moves)"

subsection \<open>Cannon\<close>

definition cannon_step :: "side \<Rightarrow> grid \<Rightarrow> int \<Rightarrow> int \<Rightarrow> int \<times> int \<Rightarrow> int \<Rightarrow> nat \<times> move list \<Rightarrow> nat \<times> move list" where
  "cannon_step me b row col d i st =
     (let mark = fst st; moves = snd st;
          endRow = row + fst d * i; endCol = col + snd d * i in
      if 0 \<le> endRow \<and> endRow \<le> 9 \<and> 0 \<le> endCol \<and> endCol \<le> 8 then
        (let endPiece = cell_at b endRow endCol in
         if endPiece \<noteq> None \<and> mark = 0 then
           (if kind_of endPiece = Some Cannon then (3, moves) else (1, moves))
         else if endPiece = None \<and> mark = 0 then (0, moves)
         else if mark = 1 \<and> endPiece = None
              then (mark, moves @ [Move (row, col) (endRow, endCol) b])
         else if mark = 1 \<and> side_of endPiece = Some (other me)
              then (3, moves @ [Move (row, col) (endRow, endCol) b])
         else if mark = 1 \<and> side_of endPiece = Some me then (3, moves)
         else (mark, moves))
      else (mark, moves))"

definition cannon_slide :: "side \<Rightarrow> grid \<Rightarrow> int \<Rightarrow> int \<Rightarrow> int \<times> int \<Rightarrow> move list \<Rightarrow> move list" where
  "cannon_slide me b row col d moves = snd (fold (cannon_step me b row col d) [1..9] (0, moves))"

definition cannon_diag_target :: "side \<Rightarrow> grid \<Rightarrow> int \<Rightarrow> int \<Rightarrow> int \<times> int \<Rightarrow> move list \<Rightarrow> move list" where
  "cannon_diag_target me b row col c moves =
     (let dRow = row + fst c; dCol = col + snd c in
      if any_zone dRow dCol then
        (let diagPiece = cell_at b dRow dCol in
         if diagPiece \<noteq> None then
           (let dRow2 = row + fst c * 2; dCol2 = col + snd c * 2 in
            if any_zone dRow2 dCol2 then
              (let dPiece = cell_at b dRow2 dCol2 in
               if side_of dPiece \<noteq> Some me then moves @ [Move (row, col) (dRow2, dCol2) b]
               else moves)
            else moves)
         else moves)
      else moves)"

definition cannon_diag :: "side \<Rightarrow> grid \<Rightarrow> int \<Rightarrow> int \<Rightarrow> move list \<Rightarrow> move list" where
  "cannon_diag me b row col moves =
     fold (\<lambda>i ms. if row = fst i \<and> col = snd i
                   then fold (cannon_diag_target me b row col) diagnolCor ms else ms)
          all_palace_points moves"

definition get_cannon_moves :: "game \<Rightarrow> int \<Rightarrow> int \<Rightarrow> move list \<Rightarrow> move list" where
  "get_cannon_moves s row col moves =
     (let b = board s in
      if player_turn s = RED then
        cannon_diag RED b row col
          (fold (cannon_slide RED b row col) directions moves)
      else
        cannon_diag BLUE b row col
          (fold (cannon_slide BLUE b row col) directions moves))"

subsection \<open>Elephant\<close>

text \<open>
  One diagonal arm of the elephant after the orthogonal step to \<open>(er, ec)\<close>, with
  \<^verbatim>\<open>mark\<close> starting at 0. The second range test repeats the first; the test
  \<^verbatim>\<open>mark == 0 and x[0] == "R" or x[0] == "B"\<close> is the same text in both colour branches
  and groups as \<^verbatim>\<open>(mark == 0 and x[0] == "R") or x[0] == "B"\<close>.
\<close>

definition elephant_arm :: "side \<Rightarrow> grid \<Rightarrow> int \<Rightarrow> int \<Rightarrow> int \<Rightarrow> int \<Rightarrow> int \<times> int \<Rightarrow> move list \<Rightarrow> move list" where
  "elephant_arm me b row col er ec a moves =
     (let a_row = fst a; a_col = snd a in
      if 0 \<le> er + a_row \<and> er + a_row \<le> 9 \<and> 0 \<le> ec + a_col \<and> ec + a_col \<le> 8 then
        (let checkPiece = cell_at b (er + a_row) (ec + a_col);
             mark1 = (if checkPiece \<noteq> None then 3 else (0::nat)) in
         if 0 \<le> er + a_row \<and> er + a_row \<le> 9 \<and> 0 \<le> ec + a_col \<and> ec + a_col \<le> 8 then
           (let mark2 = (if (mark1 = 0 \<and> side_of (cell_at b (er + a_row) (ec + a_col)) = Some RED)
                            \<or> side_of (cell_at b (er + a_row) (ec + a_col)) = Some BLUE
                         then 3 else mark1) in
            if 0 \<le> er + a_row * 2 \<and> er + a_row * 2 \<le> 9
               \<and> 0 \<le> ec + a_col * 2 \<and> ec + a_col * 2 \<le> 8 then
              (if mark2 = 0 \<and> side_of (cell_at b (er + a_row * 2) (ec + a_col * 2)) \<noteq> Some me
               then moves @ [Move (row, col) (er + a_row * 2, ec + a_col * 2) b]
               else moves)
            else moves)
         else moves)
      else moves)"

definition elephant_leg :: "side \<Rightarrow> grid \<Rightarrow> int \<Rightarrow> int \<Rightarrow> (int \<times> int) \<times> (int \<times> int) \<times> (int \<times> int) \<Rightarrow> move list \<Rightarrow> move list" where
  "elephant_leg me b row col dlr moves =
     (let d = fst dlr; endRow = row + fst d; endCol = col + snd d in
      if 0 \<le> endRow \<and> endRow \<le> 9 \<and> 0 \<le> endCol \<and> endCol \<le> 8 then
        (let endPiece = cell_at b endRow endCol;
             mark = (if endPiece \<noteq> None then 3 else (0::nat)) in
         if mark = 0 then
           elephant_arm me b row col endRow endCol (snd (snd dlr))
             (elephant_arm me b row col endRow endCol (fst (snd dlr)) moves)
         else moves)
      else moves)"

definition get_elephant_moves :: "game \<Rightarrow> int \<Rightarrow> int \<Rightarrow> move list \<Rightarrow> move list" where
  "get_elephant_moves s row col moves =
     (if player_turn s = RED
      then fold (elephant_leg RED (board s) row col)
             (zip directions (zip check_directions right_directions)) moves
      else fold (elephant_leg BLUE (board s) row col)
             (zip directions (zip check_directions right_directions)) moves)"

subsection \<open>Guards and general\<close>

definition palace_step :: "side \<Rightarrow> (int \<Rightarrow> int \<Rightarrow> bool) \<Rightarrow> grid \<Rightarrow> int \<Rightarrow> int \<Rightarrow> int \<times> int \<Rightarrow> move list \<Rightarrow> move list" where
  "palace_step me zone b row col d moves =
     (let endRow = row + fst d; endCol = col + snd d in
      if zone endRow endCol then step_onto me b row col endRow endCol moves else moves)"

definition get_guards_moves :: "game \<Rightarrow> int \<Rightarrow> int \<Rightarrow> move list \<Rightarrow> move list" where
  "get_guards_moves s row col moves =
     (let b = board s in
      if player_turn s = RED then
        palace_diag RED red_palace_points red_zone b row col
          (fold (palace_step RED red_zone b row col) directions moves)
      else
        palace_diag BLUE blue_palace_points blue_zone b row col
          (fold (palace_step BLUE blue_zone b row col) directions moves))"

definition get_general_moves :: "game \<Rightarrow> int \<Rightarrow> int \<Rightarrow> move list \<Rightarrow> move list" where
  "get_general_moves s row col moves =
     (let b = board s in
      if player_turn s = RED then
        palace_diag RED red_palace_points red_zone b row col
          (fold (palace_step RED red_zone b row col) directions moves)
      else
        palace_diag BLUE blue_palace_points blue_zone b row col
          (fold (palace_step BLUE blue_zone b row col) directions moves))"

section \<open>Pseudo moves, check and legal moves\<close>

definition squares :: "(int \<times> int) list" where
  "squares = concat (map (\<lambda>r. map (\<lambda>c. (r, c)) [0..8]) [0..9])"

text \<open>The body of the double scan of \<^verbatim>\<open>get_all_possible_moves\<close> at one square.\<close>

definition dispatch :: "game \<Rightarrow> int \<times> int \<Rightarrow> move list \<Rightarrow> move list" where
  "dispatch s rc moves =
     (let r = fst rc; c = snd rc; turn = side_of (cell_at (board s) r c) in
      if (turn = Some RED \<and> player_turn s = RED) \<or> (turn = Some BLUE \<and> player_turn s = BLUE) then
        (let piece = kind_of (cell_at (board s) r c);
             m1 = (if piece = Some Pawn then get_pawn_moves s r c moves else moves);
             m2 = (if piece = Some Rook then get_rook_moves s r c m1 else m1);
             m3 = (if piece = Some Horse then get_horse_moves s r c m2 else m2);
             m4 = (if piece = Some Cannon then get_cannon_moves s r c m3 else m3);
             m5 = (if piece = Some Elephant then get_elephant_moves s r c m4 else m4);
             m6 = (if piece = Some Guard then get_guards_moves s r c m5 else m5)
         in if piece = Some General then get_general_moves s r c m6 else m6)
      else moves)"

definition get_all_possible_moves :: "game \<Rightarrow> move list" where
  "get_all_possible_moves s = fold (dispatch s) squares []"

text \<open>
  \<^verbatim>\<open>square_under_attack\<close> flips the turn, generates, flips back; the flips are kept
  as state updates so that their cancelling is a theorem and not an assumption.
\<close>

definition square_under_attack :: "game \<Rightarrow> int \<Rightarrow> int \<Rightarrow> bool \<times> game" where
  "square_under_attack s r c =
     (let s1 = set_player_turn s;
          oppMoves = get_all_possible_moves s1;
          s2 = set_player_turn s1
      in (list_ex (\<lambda>m. endRow m = r \<and> endCol m = c) oppMoves, s2))"

text \<open>
  \<^verbatim>\<open>in_check\<close> returns at the first general of the side to move and falls off the end
  of the scan (Python's \<open>None\<close>) when there is none.
\<close>

fun in_check_scan :: "(int \<times> int) list \<Rightarrow> game \<Rightarrow> bool option \<times> game" where
  "in_check_scan [] s = (None, s)"
| "in_check_scan (rc # rest) s =
     (let piece = cell_at (board s) (fst rc) (snd rc) in
      if piece = Some (RED, General) then
        (if player_turn s = RED
         then (let (a, s1) = square_under_attack s (fst rc) (snd rc)
               in (Some a, s1\<lparr>player_red := Some a\<rparr>))
         else in_check_scan rest s)
      else if piece = Some (BLUE, General) then
        (if player_turn s = BLUE
         then (let (a, s1) = square_under_attack s (fst rc) (snd rc)
               in (Some a, s1\<lparr>player_blue := Some a\<rparr>))
         else in_check_scan rest s)
      else in_check_scan rest s)"

definition in_check :: "game \<Rightarrow> bool option \<times> game" where
  "in_check s = in_check_scan squares s"

fun test_move_loop :: "move list \<Rightarrow> game \<Rightarrow> int \<times> int \<Rightarrow> int \<times> int \<Rightarrow> bool \<times> game" where
  "test_move_loop [] s start_cor end_cor = (False, s)"
| "test_move_loop (m # ms) s start_cor end_cor =
     (if startRow m = fst start_cor \<and> startCol m = snd start_cor
         \<and> endRow m = fst end_cor \<and> endCol m = snd end_cor
      then (True, set_player_turn
              (s\<lparr>board := set_cell (set_cell (board s) (startRow m) (startCol m) None)
                            (endRow m) (endCol m) (pieceMoved m)\<rparr>))
      else test_move_loop ms s start_cor end_cor)"

definition test_move :: "game \<Rightarrow> int \<times> int \<Rightarrow> int \<times> int \<Rightarrow> bool \<times> game" where
  "test_move s start_cor end_cor =
     (let moves_list = get_all_possible_moves s in
      if start_cor = end_cor then (True, set_player_turn s)
      else test_move_loop moves_list s start_cor end_cor)"

text \<open>
  \<^verbatim>\<open>get_valid_moves\<close> walks the list from the last index to the first and removes
  the rejected entries in place. \<^verbatim>\<open>Move\<close> defines no \<^verbatim>\<open>__eq__\<close>, so
  \<^verbatim>\<open>moves.remove(move)\<close> compares by identity and drops exactly the entry at the
  current index. \<open>valid_step\<close> is one iteration: its state is the part of the list
  already decided (the entries behind the index) and the game.
\<close>

definition valid_step :: "move \<Rightarrow> move list \<times> game \<Rightarrow> move list \<times> game" where
  "valid_step m st =
     (let kept = fst st; s = snd st;
          end_piece = pieceCaptured m; start_piece = pieceMoved m;
          start_cor = (startRow m, startCol m); end_cor = (endRow m, endCol m);
          s1 = snd (test_move s start_cor end_cor);
          s2 = set_player_turn s1;
          (chk, s3) = in_check s2;
          kept' = (if chk = Some True then kept else m # kept);
          s4 = s3\<lparr>board := set_cell (board s3) (fst start_cor) (snd start_cor) start_piece\<rparr>;
          s5 = s4\<lparr>board := set_cell (board s4) (fst end_cor) (snd end_cor) end_piece\<rparr>
      in (kept', s5))"

definition get_valid_moves :: "game \<Rightarrow> move list \<times> game" where
  "get_valid_moves s = foldr valid_step (get_all_possible_moves s) ([], s)"

section \<open>Applying and undoing moves\<close>

definition undo_move :: "game \<Rightarrow> game" where
  "undo_move s =
     (if length (moveLog s) \<noteq> 0 then
        (let m = last (moveLog s);
             s1 = s\<lparr>moveLog := butlast (moveLog s)\<rparr>;
             s2 = s1\<lparr>board := set_cell (board s1) (startRow m) (startCol m) (pieceMoved m)\<rparr>;
             s3 = s2\<lparr>board := set_cell (board s2) (endRow m) (endCol m) (pieceCaptured m)\<rparr>
         in set_player_turn s3)
      else s)"

text \<open>
  The body of \<^verbatim>\<open>make_move\<close> once the matching legal move is found: write the two
  squares, append to the log, flip the turn, look for checkmate, and flip again.
\<close>

definition commit_move :: "game \<Rightarrow> move \<Rightarrow> game" where
  "commit_move s m =
     (let s1 = s\<lparr>board := set_cell (board s) (startRow m) (startCol m) None\<rparr>;
          s2 = s1\<lparr>board := set_cell (board s1) (endRow m) (endCol m) (pieceMoved m)\<rparr>;
          s3 = s2\<lparr>moveLog := moveLog s2 @ [m]\<rparr>;
          s4 = set_player_turn s3;
          (opp_moves, s5) = get_valid_moves s4;
          s6 = (if length opp_moves = 0 then
                  (let (chk, t) = in_check s5 in
                   if chk = Some True then t\<lparr>checkmate := True\<rparr> else t\<lparr>checkmate := False\<rparr>)
                else s5\<lparr>checkmate := False\<rparr>);
          s7 = (if checkmate s6 = True then
                  (if player_turn s6 = RED then s6\<lparr>game_state := BLUE_WON\<rparr>
                   else s6\<lparr>game_state := RED_WON\<rparr>)
                else set_player_turn s6)
      in set_player_turn s7)"

fun make_move_loop :: "move list \<Rightarrow> game \<Rightarrow> int \<times> int \<Rightarrow> int \<times> int \<Rightarrow> bool \<times> game" where
  "make_move_loop [] s start_cor end_cor = (False, s)"
| "make_move_loop (m # ms) s start_cor end_cor =
     (if startRow m = fst start_cor \<and> startCol m = snd start_cor
         \<and> endRow m = fst end_cor \<and> endCol m = snd end_cor
      then (True, commit_move s m)
      else make_move_loop ms s start_cor end_cor)"

definition make_move :: "game \<Rightarrow> int \<times> int \<Rightarrow> int \<times> int \<Rightarrow> bool \<times> game" where
  "make_move s xcor ycor =
     (let (moves_list, s0) = get_valid_moves s in
      if game_state s0 = UNFINISHED then
        (if xcor = ycor then (True, set_player_turn s0)
         else make_move_loop moves_list s0 xcor ycor)
      else (False, s0))"

section \<open>Notions used by the properties\<close>

text \<open>
  The board after a move: the origin is emptied and the destination receives the moved
  piece, the two writes of \<^verbatim>\<open>test_move\<close> and \<^verbatim>\<open>make_move\<close>.
\<close>

definition apply_to_board :: "move \<Rightarrow> grid \<Rightarrow> grid" where
  "apply_to_board m b =
     set_cell (set_cell b (startRow m) (startCol m) None) (endRow m) (endCol m) (pieceMoved m)"

text \<open>A game object with a given board and side to move, all other fields as constructed.\<close>

definition position :: "grid \<Rightarrow> side \<Rightarrow> game" where
  "position b t =
     \<lparr> board = b, game_state = UNFINISHED, moveLog = [], player_turn = t,
       checkmate = False, player_red = None, player_blue = None \<rparr>"

text \<open>A square is attacked by a side when one of that side's pseudo moves ends on it.\<close>

definition attacked :: "grid \<Rightarrow> side \<Rightarrow> int \<Rightarrow> int \<Rightarrow> bool" where
  "attacked b attacker r c =
     list_ex (\<lambda>m. endRow m = r \<and> endCol m = c) (get_all_possible_moves (position b attacker))"

definition general_attacked :: "grid \<Rightarrow> side \<Rightarrow> bool" where
  "general_attacked b sd =
     list_ex (\<lambda>rc. cell_at b (fst rc) (snd rc) = Some (sd, General)
                   \<and> attacked b (other sd) (fst rc) (snd rc)) squares"

text \<open>What every generated move satisfies: the geometry lemmas below establish it.\<close>

definition gen_ok :: "grid \<Rightarrow> side \<Rightarrow> int \<Rightarrow> int \<Rightarrow> move \<Rightarrow> bool" where
  "gen_ok b me row col m =
     (on_board (endRow m) (endCol m)
      \<and> m = Move (row, col) (endRow m, endCol m) b
      \<and> side_of (cell_at b (endRow m) (endCol m)) \<noteq> Some me)"

definition pseudo_ok :: "game \<Rightarrow> move \<Rightarrow> bool" where
  "pseudo_ok s m =
     (on_board (startRow m) (startCol m)
      \<and> side_of (cell_at (board s) (startRow m) (startCol m)) = Some (player_turn s)
      \<and> gen_ok (board s) (player_turn s) (startRow m) (startCol m) m)"

text \<open>
  The legality test of \<^verbatim>\<open>get_valid_moves\<close> for one pseudo move: on the board after the
  move, with the mover still to move, \<^verbatim>\<open>in_check()\<close> is not \<^verbatim>\<open>True\<close>.
\<close>

definition legal :: "game \<Rightarrow> move \<Rightarrow> bool" where
  "legal s m =
     (fst (in_check (position (apply_to_board m (board s)) (player_turn s))) \<noteq> Some True)"

definition same_squares :: "move \<Rightarrow> int \<times> int \<Rightarrow> int \<times> int \<Rightarrow> bool" where
  "same_squares m start_cor end_cor =
     (startRow m = fst start_cor \<and> startCol m = snd start_cor
      \<and> endRow m = fst end_cor \<and> endCol m = snd end_cor)"

text \<open>
  The states the driver can produce: it constructs a game, and then only calls
  \<^verbatim>\<open>make_move\<close>, \<^verbatim>\<open>undo_move\<close> and \<^verbatim>\<open>get_valid_moves\<close> on it.
\<close>

inductive reachable :: "game \<Rightarrow> bool" where
  reachable_init: "reachable initial_game"
| reachable_make_move: "reachable s \<Longrightarrow> reachable (snd (make_move s xcor ycor))"
| reachable_undo_move: "reachable s \<Longrightarrow> reachable (undo_move s)"
| reachable_get_valid_moves: "reachable s \<Longrightarrow> reachable (snd (get_valid_moves s))"

text \<open>
  The position in which \<^verbatim>\<open>make_move\<close> looks for checkmate: the board after the piece on
  \<open>xcor\<close> has moved to \<open>ycor\<close>, with the other side to move.
\<close>

definition position_after :: "game \<Rightarrow> int \<times> int \<Rightarrow> int \<times> int \<Rightarrow> game" where
  "position_after s xcor ycor =
     position (apply_to_board (Move xcor ycor (board s)) (board s)) (other (player_turn s))"

text \<open>
  The checkmate test of \<^verbatim>\<open>make_move\<close> after committing \<open>m\<close>: the opponent has no legal
  move and \<^verbatim>\<open>in_check()\<close> is \<^verbatim>\<open>True\<close> for the opponent.
\<close>

definition mated :: "game \<Rightarrow> move \<Rightarrow> bool" where
  "mated s m =
     (fst (get_valid_moves (position (apply_to_board m (board s)) (other (player_turn s)))) = []
      \<and> fst (in_check (position (apply_to_board m (board s)) (other (player_turn s)))) = Some True)"

fun won_by :: "side \<Rightarrow> status" where
  "won_by RED = RED_WON"
| "won_by BLUE = BLUE_WON"

section \<open>Concrete positions\<close>

text \<open>
  RED to move mates with the soldier step from row 7, column 3 to row 8, column 3: the
  two soldiers then cover the blue general's square and its three palace steps.
\<close>

definition mate_board :: grid where
  "mate_board =
    [[None, None, None, None, None, None, None, None, None],
     [None, None, None, None, Some (RED, General), None, None, None, None],
     [None, None, None, None, None, None, None, None, None],
     [None, None, None, None, None, None, None, None, None],
     [None, None, None, None, None, None, None, None, None],
     [None, None, None, None, None, None, None, None, None],
     [None, None, None, None, None, None, None, None, None],
     [None, None, None, Some (RED, Pawn), None, None, None, None, None],
     [None, None, None, None, Some (RED, Pawn), None, None, None, None],
     [None, None, None, Some (BLUE, General), None, None, None, None, None]]"

definition mate_game :: game where
  "mate_game = position mate_board RED"

text \<open>
  The opening position after RED's soldier has stepped sideways from row 3, column 0 to
  row 3, column 1, BLUE to move: on column 1 the soldier now stands between the blue cannon
  on row 7 and the red cannon on row 2.
\<close>

definition cannon_board :: grid where
  "cannon_board =
    [[Some (RED, Rook), Some (RED, Elephant), Some (RED, Horse), Some (RED, Guard), None,
      Some (RED, Guard), Some (RED, Elephant), Some (RED, Horse), Some (RED, Rook)],
     [None, None, None, None, Some (RED, General), None, None, None, None],
     [None, Some (RED, Cannon), None, None, None, None, None, Some (RED, Cannon), None],
     [None, Some (RED, Pawn), Some (RED, Pawn), None, Some (RED, Pawn), None,
      Some (RED, Pawn), None, Some (RED, Pawn)],
     [None, None, None, None, None, None, None, None, None],
     [None, None, None, None, None, None, None, None, None],
     [Some (BLUE, Pawn), None, Some (BLUE, Pawn), None, Some (BLUE, Pawn), None,
      Some (BLUE, Pawn), None, Some (BLUE, Pawn)],
     [None, Some (BLUE, Cannon), None, None, None, None, None, Some (BLUE, Cannon), None],
     [None, None, None, None, Some (BLUE, General), None, None, None, None],
     [Some (BLUE, Rook), Some (BLUE, Elephant), Some (BLUE, Horse), Some (BLUE, Guard), None,
      Some (BLUE, Guard), Some (BLUE, Elephant), Some (BLUE, Horse), Some (BLUE, Rook)]]"

definition cannon_game :: game where
  "cannon_game = position cannon_board BLUE"

text \<open>A red soldier on the corner point row 7, column 3 of the blue palace, centre empty.\<close>

definition soldier_board :: grid where
  "soldier_board =
    [[None, None, None, None, None, None, None, None, None],
     [None, None, None, None, Some (RED, General), None, None, None, None],
     [None, None, None, None, None, None, None, None, None],
     [None, None, None, None, None, None, None, None, None],
     [None, None, None, None, None, None, None, None, None],
     [None, None, None, None, None, None, None, None, None],
     [None, None, None, None, None, None, None, None, None],
     [None, None, None, Some (RED, Pawn), None, None, None, None, None],
     [None, None, None, None, None, None, None, None, None],
     [None, None, None, None, Some (BLUE, General), None, None, None, None]]"

definition soldier_game :: game where
  "soldier_game = position soldier_board RED"

section \<open>Basic facts\<close>

lemma other_other [simp]: "other (other t) = t"
  by (cases t) simp_all

lemma other_neq [simp]: "other t \<noteq> t" "t \<noteq> other t"
  by (cases t; simp)+

lemma set_player_turn_fields [simp]:
  "board (set_player_turn s) = board s"
  "game_state (set_player_turn s) = game_state s"
  "moveLog (set_player_turn s) = moveLog s"
  "checkmate (set_player_turn s) = checkmate s"
  "player_red (set_player_turn s) = player_red s"
  "player_blue (set_player_turn s) = player_blue s"
  by (simp_all add: set_player_turn_def)

lemma player_turn_set_player_turn [simp]:
  "player_turn (set_player_turn s) = other (player_turn s)"
  by (cases "player_turn s") (simp_all add: set_player_turn_def)

lemma set_player_turn_twice [simp]: "set_player_turn (set_player_turn s) = s"
  by (cases "player_turn s") (simp_all add: set_player_turn_def)

lemma fold_adds:
  assumes step: "\<And>x st m. x \<in> set xs \<Longrightarrow> m \<in> set (g (f x st)) \<Longrightarrow> m \<in> set (g st) \<or> P m"
  shows "m \<in> set (g (fold f xs st)) \<Longrightarrow> m \<in> set (g st) \<or> P m"
  using step
proof (induction xs arbitrary: st)
  case Nil
  then show ?case by simp
next
  case (Cons x xs)
  from Cons.prems(1) have "m \<in> set (g (fold f xs (f x st)))" by simp
  then have "m \<in> set (g (f x st)) \<or> P m"
    by (rule Cons.IH) (use Cons.prems(2) in auto)
  then show ?case using Cons.prems(2) [of x m st] by auto
qed

lemmas fold_adds_id = fold_adds [where g = "\<lambda>ms. ms"]

lemma gen_ok_Move:
  "on_board er ec \<Longrightarrow> side_of (cell_at b er ec) \<noteq> Some me \<Longrightarrow> gen_ok b me row col (Move (row, col) (er, ec) b)"
  by (simp add: gen_ok_def Move_def)

lemma side_of_None [simp]: "side_of None = None"
  by (simp add: side_of_def)

lemma step_onto_adds:
  "m \<in> set (step_onto me b row col er ec moves) \<Longrightarrow> on_board er ec \<Longrightarrow>
     m \<in> set moves \<or> gen_ok b me row col m"
  by (auto simp: step_onto_def gen_ok_Move split: if_splits)

lemma zone_on_board: "red_zone r c \<Longrightarrow> on_board r c" "blue_zone r c \<Longrightarrow> on_board r c"
  "any_zone r c \<Longrightarrow> on_board r c"
  by (auto simp: red_zone_def blue_zone_def any_zone_def on_board_def)

lemma diag_target_adds:
  "m \<in> set (diag_target me zone b row col c moves) \<Longrightarrow> (\<And>r c. zone r c \<Longrightarrow> on_board r c) \<Longrightarrow>
     m \<in> set moves \<or> gen_ok b me row col m"
  by (auto simp: diag_target_def Let_def gen_ok_Move split: if_splits)

lemma palace_diag_adds:
  assumes "m \<in> set (palace_diag me pts zone b row col moves)"
    and z: "\<And>r c. zone r c \<Longrightarrow> on_board r c"
  shows "m \<in> set moves \<or> gen_ok b me row col m"
  using assms(1) unfolding palace_diag_def
proof (rule fold_adds_id [rotated])
  fix x st m
  assume "m \<in> set (if row = fst x \<and> col = snd x then fold (diag_target me zone b row col) diagnolCor st else st)"
  then show "m \<in> set st \<or> gen_ok b me row col m"
    by (auto split: if_splits elim!: fold_adds_id [rotated] dest: diag_target_adds [OF _ z])
qed


lemma rook_step_adds:
  "m \<in> set (snd (rook_step me b row col d i st)) \<Longrightarrow> m \<in> set (snd st) \<or> gen_ok b me row col m"
  by (auto simp: rook_step_def Let_def on_board_def intro!: gen_ok_Move split: if_splits)

lemma rook_slide_adds:
  "m \<in> set (rook_slide me b row col d moves) \<Longrightarrow> m \<in> set moves \<or> gen_ok b me row col m"
  unfolding rook_slide_def
  using fold_adds [where g = snd and f = "rook_step me b row col d" and P = "gen_ok b me row col"
      and st = "(0, moves)" and m = m and xs = "[1..9]"]
  by (auto dest: rook_step_adds)

lemma cannon_step_adds:
  "m \<in> set (snd (cannon_step me b row col d i st)) \<Longrightarrow> m \<in> set (snd st) \<or> gen_ok b me row col m"
  by (auto simp: cannon_step_def Let_def on_board_def intro!: gen_ok_Move split: if_splits)

lemma cannon_slide_adds:
  "m \<in> set (cannon_slide me b row col d moves) \<Longrightarrow> m \<in> set moves \<or> gen_ok b me row col m"
  unfolding cannon_slide_def
  using fold_adds [where g = snd and f = "cannon_step me b row col d" and P = "gen_ok b me row col"
      and st = "(0, moves)" and m = m and xs = "[1..9]"]
  by (auto dest: cannon_step_adds)

lemma cannon_diag_target_adds:
  "m \<in> set (cannon_diag_target me b row col c moves) \<Longrightarrow> m \<in> set moves \<or> gen_ok b me row col m"
  by (auto simp: cannon_diag_target_def Let_def zone_on_board intro!: gen_ok_Move split: if_splits)

lemma cannon_diag_adds:
  assumes "m \<in> set (cannon_diag me b row col moves)"
  shows "m \<in> set moves \<or> gen_ok b me row col m"
  using assms unfolding cannon_diag_def
proof (rule fold_adds_id [rotated])
  fix x st m
  assume "m \<in> set (if row = fst x \<and> col = snd x then fold (cannon_diag_target me b row col) diagnolCor st else st)"
  then show "m \<in> set st \<or> gen_ok b me row col m"
    by (auto split: if_splits elim!: fold_adds_id [rotated] dest: cannon_diag_target_adds)
qed

lemma horse_leg_adds:
  "m \<in> set (horse_leg me b row col dlr moves) \<Longrightarrow> m \<in> set moves \<or> gen_ok b me row col m"
  by (auto simp: horse_leg_def Let_def on_board_def intro!: gen_ok_Move split: if_splits)

lemma elephant_arm_adds:
  "m \<in> set (elephant_arm me b row col er ec a moves) \<Longrightarrow> m \<in> set moves \<or> gen_ok b me row col m"
  by (auto simp: elephant_arm_def Let_def on_board_def intro!: gen_ok_Move split: if_splits)

lemma elephant_leg_adds:
  "m \<in> set (elephant_leg me b row col dlr moves) \<Longrightarrow> m \<in> set moves \<or> gen_ok b me row col m"
  by (auto simp: elephant_leg_def Let_def split: if_splits dest!: elephant_arm_adds)

lemma palace_step_adds:
  "m \<in> set (palace_step me zone b row col d moves) \<Longrightarrow> (\<And>r c. zone r c \<Longrightarrow> on_board r c) \<Longrightarrow>
     m \<in> set moves \<or> gen_ok b me row col m"
  by (auto simp: palace_step_def Let_def split: if_splits dest!: step_onto_adds)


lemma fold_addsD:
  "m \<in> set (fold f xs ms) \<Longrightarrow> (\<And>x st m. m \<in> set (f x st) \<Longrightarrow> m \<in> set st \<or> P m) \<Longrightarrow>
     m \<in> set ms \<or> P m"
  using fold_adds_id [of xs f P m ms] by blast

lemma get_pawn_moves_adds:
  assumes "m \<in> set (get_pawn_moves s row col moves)" and "on_board row col"
  shows "m \<in> set moves \<or> gen_ok (board s) (player_turn s) row col m"
proof (cases "player_turn s")
  case RED
  with assms show ?thesis
    unfolding get_pawn_moves_def Let_def
    by (auto simp: on_board_def split: if_splits
        dest!: palace_diag_adds [OF _ zone_on_board(2)] step_onto_adds)
next
  case BLUE
  with assms show ?thesis
    unfolding get_pawn_moves_def Let_def
    by (auto simp: on_board_def split: if_splits
        dest!: palace_diag_adds [OF _ zone_on_board(1)] step_onto_adds)
qed

lemma rook_directions_adds:
  "m \<in> set (fold (rook_slide me b row col) ds moves) \<Longrightarrow> m \<in> set moves \<or> gen_ok b me row col m"
  by (erule fold_addsD) (rule rook_slide_adds)

lemma rook_red_direction_adds:
  "m \<in> set (rook_red_direction b row col d moves) \<Longrightarrow> m \<in> set moves \<or> gen_ok b RED row col m"
  unfolding rook_red_direction_def
  by (auto dest!: palace_diag_adds [OF _ zone_on_board(3)] rook_slide_adds)

lemma rook_red_directions_adds:
  "m \<in> set (fold (rook_red_direction b row col) ds moves) \<Longrightarrow> m \<in> set moves \<or> gen_ok b RED row col m"
  by (erule fold_addsD) (rule rook_red_direction_adds)

lemma get_rook_moves_adds:
  assumes "m \<in> set (get_rook_moves s row col moves)"
  shows "m \<in> set moves \<or> gen_ok (board s) (player_turn s) row col m"
proof (cases "player_turn s")
  case RED
  with assms show ?thesis
    by (auto simp: get_rook_moves_def Let_def dest!: rook_red_directions_adds)
next
  case BLUE
  with assms show ?thesis
    by (auto simp: get_rook_moves_def Let_def
        dest!: palace_diag_adds [OF _ zone_on_board(3)] rook_directions_adds)
qed

lemma horse_legs_adds:
  "m \<in> set (fold (horse_leg me b row col) ds moves) \<Longrightarrow> m \<in> set moves \<or> gen_ok b me row col m"
  by (erule fold_addsD) (rule horse_leg_adds)

lemma get_horse_moves_adds:
  assumes "m \<in> set (get_horse_moves s row col moves)"
  shows "m \<in> set moves \<or> gen_ok (board s) (player_turn s) row col m"
  using assms
  by (cases "player_turn s") (auto simp: get_horse_moves_def dest!: horse_legs_adds)

lemma elephant_legs_adds:
  "m \<in> set (fold (elephant_leg me b row col) ds moves) \<Longrightarrow> m \<in> set moves \<or> gen_ok b me row col m"
  by (erule fold_addsD) (rule elephant_leg_adds)

lemma get_elephant_moves_adds:
  assumes "m \<in> set (get_elephant_moves s row col moves)"
  shows "m \<in> set moves \<or> gen_ok (board s) (player_turn s) row col m"
  using assms
  by (cases "player_turn s") (auto simp: get_elephant_moves_def dest!: elephant_legs_adds)

lemma cannon_directions_adds:
  "m \<in> set (fold (cannon_slide me b row col) ds moves) \<Longrightarrow> m \<in> set moves \<or> gen_ok b me row col m"
  by (erule fold_addsD) (rule cannon_slide_adds)

lemma get_cannon_moves_adds:
  assumes "m \<in> set (get_cannon_moves s row col moves)"
  shows "m \<in> set moves \<or> gen_ok (board s) (player_turn s) row col m"
  using assms
  by (cases "player_turn s")
     (auto simp: get_cannon_moves_def Let_def dest!: cannon_diag_adds cannon_directions_adds)

lemma palace_steps_adds:
  "m \<in> set (fold (palace_step me zone b row col) ds moves) \<Longrightarrow> (\<And>r c. zone r c \<Longrightarrow> on_board r c) \<Longrightarrow>
     m \<in> set moves \<or> gen_ok b me row col m"
  by (erule fold_addsD) (rule palace_step_adds)

lemma palace_moves_adds:
  assumes "m \<in> set (palace_diag me pts zone b row col (fold (palace_step me zone b row col) directions moves))"
    and z: "\<And>r c. zone r c \<Longrightarrow> on_board r c"
  shows "m \<in> set moves \<or> gen_ok b me row col m"
  using palace_diag_adds [OF assms(1) z] palace_steps_adds [OF _ z] by blast

lemma get_guards_moves_adds:
  assumes "m \<in> set (get_guards_moves s row col moves)"
  shows "m \<in> set moves \<or> gen_ok (board s) (player_turn s) row col m"
proof (cases "player_turn s")
  case RED
  with assms show ?thesis
    by (auto simp: get_guards_moves_def Let_def dest!: palace_moves_adds [OF _ zone_on_board(1)])
next
  case BLUE
  with assms show ?thesis
    by (auto simp: get_guards_moves_def Let_def dest!: palace_moves_adds [OF _ zone_on_board(2)])
qed

lemma get_general_moves_adds:
  assumes "m \<in> set (get_general_moves s row col moves)"
  shows "m \<in> set moves \<or> gen_ok (board s) (player_turn s) row col m"
proof (cases "player_turn s")
  case RED
  with assms show ?thesis
    by (auto simp: get_general_moves_def Let_def dest!: palace_moves_adds [OF _ zone_on_board(1)])
next
  case BLUE
  with assms show ?thesis
    by (auto simp: get_general_moves_def Let_def dest!: palace_moves_adds [OF _ zone_on_board(2)])
qed

lemma gen_ok_start: "gen_ok b me row col m \<Longrightarrow> startRow m = row \<and> startCol m = col"
proof -
  assume "gen_ok b me row col m"
  then have "m = Move (row, col) (endRow m, endCol m) b" by (simp add: gen_ok_def)
  then have "startRow m = startRow (Move (row, col) (endRow m, endCol m) b)"
    and "startCol m = startCol (Move (row, col) (endRow m, endCol m) b)" by simp_all
  then show ?thesis by (simp add: Move_def)
qed


lemma squares_on_board: "rc \<in> set squares \<Longrightarrow> on_board (fst rc) (snd rc)"
  by (auto simp: squares_def on_board_def)

lemma on_board_squares: "on_board r c \<Longrightarrow> (r, c) \<in> set squares"
  by (simp add: squares_def on_board_def image_iff)

lemma dispatch_adds:
  assumes "m \<in> set (dispatch s rc moves)" and "on_board (fst rc) (snd rc)"
  shows "m \<in> set moves \<or> pseudo_ok s m"
proof (cases "m \<in> set moves")
  case True
  then show ?thesis by simp
next
  case False
  let ?r = "fst rc" and ?c = "snd rc"
  have own: "side_of (cell_at (board s) ?r ?c) = Some (player_turn s)"
    using assms(1) False by (cases "player_turn s") (auto simp: dispatch_def Let_def split: if_splits)
  have "gen_ok (board s) (player_turn s) ?r ?c m"
    using assms False
    by (auto simp: dispatch_def Let_def split: if_splits
        dest!: get_pawn_moves_adds get_rook_moves_adds get_horse_moves_adds get_cannon_moves_adds
               get_elephant_moves_adds get_guards_moves_adds get_general_moves_adds)
  with own assms(2) gen_ok_start [of "board s" "player_turn s" ?r ?c m]
  show ?thesis by (simp add: pseudo_ok_def)
qed

lemma get_all_possible_moves_ok:
  assumes "m \<in> set (get_all_possible_moves s)"
  shows "pseudo_ok s m"
proof -
  have "m \<in> set [] \<or> pseudo_ok s m"
    using assms unfolding get_all_possible_moves_def
    by (rule fold_adds_id [rotated]) (auto dest: dispatch_adds squares_on_board)
  then show ?thesis by simp
qed

text \<open>Generation reads the board and the turn and nothing else.\<close>

lemma get_all_possible_moves_cong:
  assumes "board s = board t" and "player_turn s = player_turn t"
  shows "get_all_possible_moves s = get_all_possible_moves t"
proof -
  have "get_pawn_moves s = get_pawn_moves t" "get_rook_moves s = get_rook_moves t"
    "get_horse_moves s = get_horse_moves t" "get_cannon_moves s = get_cannon_moves t"
    "get_elephant_moves s = get_elephant_moves t" "get_guards_moves s = get_guards_moves t"
    "get_general_moves s = get_general_moves t"
    by (intro ext, simp add: get_pawn_moves_def get_rook_moves_def get_horse_moves_def
          get_cannon_moves_def get_elephant_moves_def get_guards_moves_def
          get_general_moves_def assms)+
  then have "dispatch s = dispatch t"
    using assms by (intro ext) (simp add: dispatch_def Let_def cong: if_cong)
  then show ?thesis by (simp add: get_all_possible_moves_def)
qed

lemma get_all_possible_moves_position:
  "get_all_possible_moves (position (board s) (player_turn s)) = get_all_possible_moves s"
  by (rule get_all_possible_moves_cong) (simp_all add: position_def)

section \<open>Boards\<close>

lemma wf_board_nth:
  "wf_board b \<Longrightarrow> on_board r c \<Longrightarrow> nat r < length b \<and> nat c < length (b ! nat r)"
  by (auto simp: wf_board_def on_board_def list_all_length)

lemma wf_board_set_cell [simp]: "wf_board b \<Longrightarrow> wf_board (set_cell b r c v)"
  by (cases "nat r < length b")
     (auto simp: wf_board_def set_cell_def list_all_length nth_list_update)

lemma cell_at_set_cell:
  assumes "wf_board b" "on_board r c" "on_board r' c'"
  shows "cell_at (set_cell b r c v) r' c' = (if r = r' \<and> c = c' then v else cell_at b r' c')"
proof -
  from assms have n: "nat r < length b" "nat c < length (b ! nat r)"
    "nat r' < length b" "nat c' < length (b ! nat r')"
    using wf_board_nth by blast+
  from assms have e: "nat r = nat r' \<longleftrightarrow> r = r'" "nat c = nat c' \<longleftrightarrow> c = c'"
    by (auto simp: on_board_def)
  show ?thesis
    using n e by (auto simp: cell_at_def set_cell_def nth_list_update)
qed

lemma board_eqI:
  assumes "wf_board b" "wf_board b'"
    and eq: "\<And>r c. on_board r c \<Longrightarrow> cell_at b r c = cell_at b' r c"
  shows "b = b'"
proof (rule nth_equalityI)
  show "length b = length b'" using assms by (simp add: wf_board_def)
next
  fix i assume i: "i < length b"
  then have i10: "i < 10" using assms by (simp add: wf_board_def)
  have l: "length (b ! i) = 9" "length (b' ! i) = 9"
    using assms i by (auto simp: wf_board_def list_all_length)
  show "b ! i = b' ! i"
  proof (rule nth_equalityI)
    show "length (b ! i) = length (b' ! i)" using l by simp
  next
    fix j assume "j < length (b ! i)"
    then have "on_board (int i) (int j)" using i10 l by (simp add: on_board_def)
    from eq [OF this] show "b ! i ! j = b' ! i ! j" by (simp add: cell_at_def)
  qed
qed

lemma wf_apply_to_board [simp]: "wf_board b \<Longrightarrow> wf_board (apply_to_board m b)"
  by (simp add: apply_to_board_def)

lemma cell_at_apply_to_board:
  assumes "wf_board b" "on_board (startRow m) (startCol m)" "on_board (endRow m) (endCol m)"
    "on_board r c"
  shows "cell_at (apply_to_board m b) r c =
     (if r = endRow m \<and> c = endCol m then pieceMoved m
      else if r = startRow m \<and> c = startCol m then None else cell_at b r c)"
  using assms by (auto simp: apply_to_board_def cell_at_set_cell)

lemma pseudo_ok_fields:
  assumes "pseudo_ok s m"
  shows "on_board (startRow m) (startCol m)" "on_board (endRow m) (endCol m)"
    "pieceMoved m = cell_at (board s) (startRow m) (startCol m)"
    "pieceCaptured m = cell_at (board s) (endRow m) (endCol m)"
    "side_of (cell_at (board s) (startRow m) (startCol m)) = Some (player_turn s)"
    "side_of (cell_at (board s) (endRow m) (endCol m)) \<noteq> Some (player_turn s)"
    "m = Move (startRow m, startCol m) (endRow m, endCol m) (board s)"
proof -
  from assms have M: "m = Move (startRow m, startCol m) (endRow m, endCol m) (board s)"
    by (simp add: pseudo_ok_def gen_ok_def)
  show "m = Move (startRow m, startCol m) (endRow m, endCol m) (board s)" by (rule M)
  have "pieceMoved m = pieceMoved (Move (startRow m, startCol m) (endRow m, endCol m) (board s))"
    using M by simp
  then show "pieceMoved m = cell_at (board s) (startRow m) (startCol m)" by (simp add: Move_def)
  have "pieceCaptured m = pieceCaptured (Move (startRow m, startCol m) (endRow m, endCol m) (board s))"
    using M by simp
  then show "pieceCaptured m = cell_at (board s) (endRow m) (endCol m)" by (simp add: Move_def)
qed (use assms in \<open>simp_all add: pseudo_ok_def gen_ok_def\<close>)

lemma pseudo_ok_distinct:
  "pseudo_ok s m \<Longrightarrow> (startRow m, startCol m) \<noteq> (endRow m, endCol m)"
  using pseudo_ok_fields(5,6) [of s m] by auto

lemma pseudo_ok_same_squares:
  assumes "pseudo_ok s m" "pseudo_ok s m'"
    "startRow m' = startRow m" "startCol m' = startCol m" "endRow m' = endRow m" "endCol m' = endCol m"
  shows "m' = m"
  using pseudo_ok_fields(7) [OF assms(1)] pseudo_ok_fields(7) [OF assms(2)] assms(3-6) by simp

text \<open>Writing the two recorded pieces back undoes the move.\<close>

lemma restore_board:
  assumes "wf_board b" "pseudo_ok s m" "board s = b"
  shows "set_cell (set_cell (apply_to_board m b) (startRow m) (startCol m) (pieceMoved m))
           (endRow m) (endCol m) (pieceCaptured m) = b"
proof (rule board_eqI)
  note f = pseudo_ok_fields [OF assms(2)]
  show "wf_board (set_cell (set_cell (apply_to_board m b) (startRow m) (startCol m) (pieceMoved m))
           (endRow m) (endCol m) (pieceCaptured m))" using assms(1) by simp
  show "wf_board b" by fact
  fix r c assume rc: "on_board r c"
  show "cell_at (set_cell (set_cell (apply_to_board m b) (startRow m) (startCol m) (pieceMoved m))
           (endRow m) (endCol m) (pieceCaptured m)) r c = cell_at b r c"
    using assms(1,3) f(1-4) rc
    by (auto simp: cell_at_set_cell cell_at_apply_to_board)
qed

section \<open>Check detection\<close>

lemma square_under_attack_state [simp]: "snd (square_under_attack s r c) = s"
  by (simp add: square_under_attack_def Let_def)

lemma square_under_attack_result:
  "fst (square_under_attack s r c) = attacked (board s) (other (player_turn s)) r c"
proof -
  have "get_all_possible_moves (set_player_turn s)
      = get_all_possible_moves (position (board s) (other (player_turn s)))"
    by (rule get_all_possible_moves_cong) (simp_all add: position_def)
  then show ?thesis by (simp add: square_under_attack_def Let_def attacked_def)
qed

lemma in_check_scan_frame:
  "board (snd (in_check_scan sq s)) = board s
   \<and> player_turn (snd (in_check_scan sq s)) = player_turn s
   \<and> game_state (snd (in_check_scan sq s)) = game_state s
   \<and> moveLog (snd (in_check_scan sq s)) = moveLog s
   \<and> checkmate (snd (in_check_scan sq s)) = checkmate s"
  by (induction sq) (auto simp: Let_def split_beta)

lemma in_check_frame [simp]:
  "board (snd (in_check s)) = board s"
  "player_turn (snd (in_check s)) = player_turn s"
  "game_state (snd (in_check s)) = game_state s"
  "moveLog (snd (in_check s)) = moveLog s"
  "checkmate (snd (in_check s)) = checkmate s"
  using in_check_scan_frame [of squares s] by (simp_all add: in_check_def)

text \<open>The answer of the scan: the attack test at the first general of the side to move.\<close>

lemma in_check_scan_result:
  "fst (in_check_scan sq s) =
     (case find (\<lambda>rc. cell_at (board s) (fst rc) (snd rc) = Some (player_turn s, General)) sq of
        None \<Rightarrow> None
      | Some rc \<Rightarrow> Some (attacked (board s) (other (player_turn s)) (fst rc) (snd rc)))"
proof (induction sq)
  case Nil
  then show ?case by simp
next
  case (Cons rc sq)
  show ?case
    using Cons.IH
    by (cases "player_turn s")
       (auto simp: Let_def split_beta square_under_attack_result)
qed

lemma in_check_cong:
  assumes "board s = board t" and "player_turn s = player_turn t"
  shows "fst (in_check s) = fst (in_check t)"
  unfolding in_check_def in_check_scan_result assms ..

section \<open>The legality filter\<close>

lemma test_move_loop_found:
  assumes "m \<in> set ms" and "\<And>m'. m' \<in> set ms \<Longrightarrow> pseudo_ok s m'"
  shows "test_move_loop ms s (startRow m, startCol m) (endRow m, endCol m)
       = (True, set_player_turn (s\<lparr>board := apply_to_board m (board s)\<rparr>))"
  using assms
proof (induction ms)
  case Nil
  then show ?case by simp
next
  case (Cons a ms)
  show ?case
  proof (cases "startRow a = startRow m \<and> startCol a = startCol m
                \<and> endRow a = endRow m \<and> endCol a = endCol m")
    case True
    have "pseudo_ok s a" "pseudo_ok s m" using Cons.prems by auto
    then have "a = m" using True by (intro pseudo_ok_same_squares [of s m a]) auto
    then show ?thesis by (simp add: apply_to_board_def)
  next
    case False
    then have "m \<in> set ms" using Cons.prems(1) by auto
    then show ?thesis using False Cons by auto
  qed
qed

lemma test_move_pseudo:
  assumes "m \<in> set (get_all_possible_moves s)"
  shows "test_move s (startRow m, startCol m) (endRow m, endCol m)
       = (True, set_player_turn (s\<lparr>board := apply_to_board m (board s)\<rparr>))"
proof -
  have ne: "(startRow m, startCol m) \<noteq> (endRow m, endCol m)"
    using assms by (intro pseudo_ok_distinct [of s]) (rule get_all_possible_moves_ok)
  have "test_move_loop (get_all_possible_moves s) s (startRow m, startCol m) (endRow m, endCol m)
       = (True, set_player_turn (s\<lparr>board := apply_to_board m (board s)\<rparr>))"
    by (rule test_move_loop_found [OF assms]) (rule get_all_possible_moves_ok)
  then show ?thesis
    using ne by (auto simp: test_move_def Let_def)
qed

lemma valid_step_pseudo:
  assumes m: "m \<in> set (get_all_possible_moves s0)"
    and wf: "wf_board (board s0)"
    and b: "board s = board s0" and t: "player_turn s = player_turn s0"
  shows "fst (valid_step m (kept, s)) = (if legal s0 m then m # kept else kept)"
    and "board (snd (valid_step m (kept, s))) = board s0"
    and "player_turn (snd (valid_step m (kept, s))) = player_turn s0"
    and "game_state (snd (valid_step m (kept, s))) = game_state s"
    and "moveLog (snd (valid_step m (kept, s))) = moveLog s"
    and "checkmate (snd (valid_step m (kept, s))) = checkmate s"
proof -
  have gs: "get_all_possible_moves s = get_all_possible_moves s0"
    using b t by (rule get_all_possible_moves_cong)
  have ok: "pseudo_ok s0 m" using m by (rule get_all_possible_moves_ok)
  define s2 where "s2 = s\<lparr>board := apply_to_board m (board s0)\<rparr>"
  have tm: "set_player_turn (snd (test_move s (startRow m, startCol m) (endRow m, endCol m))) = s2"
    using test_move_pseudo [of m s] m gs b by (simp add: s2_def)
  have chk: "fst (in_check s2) = fst (in_check (position (apply_to_board m (board s0)) (player_turn s0)))"
    by (rule in_check_cong) (simp_all add: s2_def position_def t)
  have vs: "valid_step m (kept, s) =
      (if fst (in_check s2) = Some True then kept else m # kept,
       (snd (in_check s2))\<lparr>board := set_cell (set_cell (board (snd (in_check s2)))
            (startRow m) (startCol m) (pieceMoved m)) (endRow m) (endCol m) (pieceCaptured m)\<rparr>)"
  proof -
    have tb: "board (snd (test_move s (startRow m, startCol m) (endRow m, endCol m))) = board s2"
      using tm by (metis set_player_turn_fields(1))
    show ?thesis using tm tb by (simp add: valid_step_def Let_def split_beta)
  qed
  have rb: "set_cell (set_cell (board s2) (startRow m) (startCol m) (pieceMoved m))
              (endRow m) (endCol m) (pieceCaptured m) = board s0"
    using restore_board [OF wf ok refl] by (simp add: s2_def)
  show "fst (valid_step m (kept, s)) = (if legal s0 m then m # kept else kept)"
    using vs chk by (simp add: legal_def)
  show "board (snd (valid_step m (kept, s))) = board s0"
    using vs rb by simp
  show "player_turn (snd (valid_step m (kept, s))) = player_turn s0"
    using vs t by (simp add: s2_def)
  show "game_state (snd (valid_step m (kept, s))) = game_state s"
    using vs by (simp add: s2_def)
  show "moveLog (snd (valid_step m (kept, s))) = moveLog s"
    using vs by (simp add: s2_def)
  show "checkmate (snd (valid_step m (kept, s))) = checkmate s"
    using vs by (simp add: s2_def)
qed

lemma foldr_valid_step:
  assumes "set ms \<subseteq> set (get_all_possible_moves s0)" and wf: "wf_board (board s0)"
  shows "fst (foldr valid_step ms ([], s0)) = filter (legal s0) ms
       \<and> board (snd (foldr valid_step ms ([], s0))) = board s0
       \<and> player_turn (snd (foldr valid_step ms ([], s0))) = player_turn s0
       \<and> game_state (snd (foldr valid_step ms ([], s0))) = game_state s0
       \<and> moveLog (snd (foldr valid_step ms ([], s0))) = moveLog s0
       \<and> checkmate (snd (foldr valid_step ms ([], s0))) = checkmate s0"
  using assms(1)
proof (induction ms)
  case Nil
  then show ?case by simp
next
  case (Cons m ms)
  let ?st = "foldr valid_step ms ([], s0)"
  have IH: "fst ?st = filter (legal s0) ms" "board (snd ?st) = board s0"
    "player_turn (snd ?st) = player_turn s0" "game_state (snd ?st) = game_state s0"
    "moveLog (snd ?st) = moveLog s0" "checkmate (snd ?st) = checkmate s0"
    using Cons by auto
  have m: "m \<in> set (get_all_possible_moves s0)" using Cons.prems by simp
  have e: "foldr valid_step (m # ms) ([], s0) = valid_step m (fst ?st, snd ?st)" by simp
  show ?case
    unfolding e
    using valid_step_pseudo [OF m wf IH(2) IH(3), of "fst ?st"] IH by simp
qed

text \<open>
  \<^verbatim>\<open>get_valid_moves\<close> on a well-formed board: the pseudo moves that pass the
  legality test, in generation order, and a state that differs from the entry state at
  most in the two in-check flags.
\<close>

lemma get_valid_moves_result:
  assumes "wf_board (board s)"
  shows "fst (get_valid_moves s) = filter (legal s) (get_all_possible_moves s)"
  using foldr_valid_step [OF subset_refl assms] by (simp add: get_valid_moves_def)

lemma get_valid_moves_frame:
  assumes "wf_board (board s)"
  shows "board (snd (get_valid_moves s)) = board s"
    and "player_turn (snd (get_valid_moves s)) = player_turn s"
    and "game_state (snd (get_valid_moves s)) = game_state s"
    and "moveLog (snd (get_valid_moves s)) = moveLog s"
    and "checkmate (snd (get_valid_moves s)) = checkmate s"
  using foldr_valid_step [OF subset_refl assms] by (simp_all add: get_valid_moves_def)

lemma legal_cong:
  "board s = board t \<Longrightarrow> player_turn s = player_turn t \<Longrightarrow> legal s = legal t"
  by (intro ext) (simp add: legal_def)

lemma get_valid_moves_cong:
  assumes "wf_board (board s)" "board s = board t" "player_turn s = player_turn t"
  shows "fst (get_valid_moves s) = fst (get_valid_moves t)"
  using assms
  by (simp add: get_valid_moves_result legal_cong [OF assms(2,3)]
        get_all_possible_moves_cong [OF assms(2,3)])

section \<open>Applying a move\<close>

lemma make_move_loop_result:
  "make_move_loop ms s xcor ycor =
     (case find (\<lambda>m. same_squares m xcor ycor) ms of
        None \<Rightarrow> (False, s) | Some m \<Rightarrow> (True, commit_move s m))"
  by (induction ms) (auto simp: same_squares_def)

lemma make_move_result:
  "make_move s xcor ycor =
     (if game_state (snd (get_valid_moves s)) = UNFINISHED then
        (if xcor = ycor then (True, set_player_turn (snd (get_valid_moves s)))
         else (case find (\<lambda>m. same_squares m xcor ycor) (fst (get_valid_moves s)) of
                 None \<Rightarrow> (False, snd (get_valid_moves s))
               | Some m \<Rightarrow> (True, commit_move (snd (get_valid_moves s)) m)))
      else (False, snd (get_valid_moves s)))"
  by (simp add: make_move_def split_beta make_move_loop_result)

lemma find_None_list_ex: "find P xs = None \<longleftrightarrow> \<not> list_ex P xs"
  by (auto simp: find_None_iff list_ex_iff)

lemma same_squares_Move:
  assumes "pseudo_ok s m" "same_squares m xcor ycor"
  shows "m = Move xcor ycor (board s)"
  using pseudo_ok_fields(7) [OF assms(1)] assms(2)
  by (simp add: same_squares_def Move_def)

text \<open>The legal move on given squares, when there is one, is the snapshot of the two squares.\<close>

lemma find_legal_move:
  assumes "wf_board (board s)" "find (\<lambda>m. same_squares m xcor ycor) (fst (get_valid_moves s)) = Some m"
  shows "m = Move xcor ycor (board s)" "m \<in> set (get_all_possible_moves s)" "legal s m"
    "same_squares m xcor ycor"
proof -
  from assms(2) have "m \<in> set (fst (get_valid_moves s))" "same_squares m xcor ycor"
    by (auto simp: find_Some_iff)
  then show "m \<in> set (get_all_possible_moves s)" "legal s m" "same_squares m xcor ycor"
    using assms(1) by (auto simp: get_valid_moves_result)
  then show "m = Move xcor ycor (board s)"
    using same_squares_Move get_all_possible_moves_ok by blast
qed

lemma find_legal_move_exists:
  assumes "wf_board (board s)" "m \<in> set (get_all_possible_moves s)" "legal s m"
    "same_squares m xcor ycor"
  shows "find (\<lambda>m. same_squares m xcor ycor) (fst (get_valid_moves s)) = Some m"
proof -
  have "list_ex (\<lambda>m. same_squares m xcor ycor) (fst (get_valid_moves s))"
    using assms by (auto simp: get_valid_moves_result list_ex_iff)
  then obtain m' where m': "find (\<lambda>m. same_squares m xcor ycor) (fst (get_valid_moves s)) = Some m'"
    using find_None_list_ex [of "\<lambda>m. same_squares m xcor ycor" "fst (get_valid_moves s)"] by auto
  from find_legal_move(1) [OF assms(1) m']
    same_squares_Move [OF get_all_possible_moves_ok [OF assms(2)] assms(4)]
  show ?thesis using m' by simp
qed

text \<open>The fields of the state \<^verbatim>\<open>make_move\<close> leaves after committing \<open>m\<close>.\<close>

lemma commit_move_fields:
  assumes wf: "wf_board (board s)"
  shows "board (commit_move s m) = apply_to_board m (board s)"
    and "moveLog (commit_move s m) = moveLog s @ [m]"
    and "player_turn (commit_move s m) = (if mated s m then player_turn s else other (player_turn s))"
    and "game_state (commit_move s m) = (if mated s m then won_by (player_turn s) else game_state s)"
    and "checkmate (commit_move s m) = mated s m"
proof -
  define s4 where "s4 = set_player_turn
      (s\<lparr>board := apply_to_board m (board s), moveLog := moveLog s @ [m]\<rparr>)"
  define s5 where "s5 = snd (get_valid_moves s4)"
  define s6 where "s6 = (if length (fst (get_valid_moves s4)) = 0 then
                  (if fst (in_check s5) = Some True then (snd (in_check s5))\<lparr>checkmate := True\<rparr>
                   else (snd (in_check s5))\<lparr>checkmate := False\<rparr>)
                else s5\<lparr>checkmate := False\<rparr>)"
  have wf4: "wf_board (board s4)" using wf by (simp add: s4_def)
  have b4: "board s4 = apply_to_board m (board s)" and t4: "player_turn s4 = other (player_turn s)"
    and l4: "moveLog s4 = moveLog s @ [m]" and g4: "game_state s4 = game_state s"
    by (simp_all add: s4_def)
  note f5 = get_valid_moves_frame [OF wf4, folded s5_def]
  have cm: "commit_move s m = set_player_turn
      (if checkmate s6 = True then
         (if player_turn s6 = RED then s6\<lparr>game_state := BLUE_WON\<rparr> else s6\<lparr>game_state := RED_WON\<rparr>)
       else set_player_turn s6)"
    by (simp add: commit_move_def Let_def split_beta s4_def s5_def s6_def apply_to_board_def)
  have gv: "fst (get_valid_moves s4)
      = fst (get_valid_moves (position (apply_to_board m (board s)) (other (player_turn s))))"
    by (rule get_valid_moves_cong [OF wf4]) (simp_all add: b4 t4 position_def)
  have ic: "fst (in_check s5)
      = fst (in_check (position (apply_to_board m (board s)) (other (player_turn s))))"
    by (rule in_check_cong) (simp_all add: f5 b4 t4 position_def)
  have c6: "checkmate s6 = mated s m"
    by (simp add: s6_def mated_def gv ic)
  have f6: "board s6 = apply_to_board m (board s)" "player_turn s6 = other (player_turn s)"
    "moveLog s6 = moveLog s @ [m]" "game_state s6 = game_state s"
    by (simp_all add: s6_def f5 b4 t4 l4 g4)
  show "board (commit_move s m) = apply_to_board m (board s)"
    by (simp add: cm f6)
  show "moveLog (commit_move s m) = moveLog s @ [m]"
    by (simp add: cm f6)
  show "player_turn (commit_move s m) = (if mated s m then player_turn s else other (player_turn s))"
    by (cases "player_turn s") (simp_all add: cm f6 c6)
  show "game_state (commit_move s m) = (if mated s m then won_by (player_turn s) else game_state s)"
    by (cases "player_turn s") (simp_all add: cm f6 c6)
  show "checkmate (commit_move s m) = mated s m"
    by (simp add: cm f6 c6)
qed

section \<open>Accepted and rejected requests\<close>

lemma mated_cong:
  "board s = board t \<Longrightarrow> player_turn s = player_turn t \<Longrightarrow> mated s m = mated t m"
  by (simp add: mated_def)

lemma mated_position_after:
  "mated s (Move xcor ycor (board s)) \<longleftrightarrow>
     fst (get_valid_moves (position_after s xcor ycor)) = []
     \<and> fst (in_check (position_after s xcor ycor)) = Some True"
  by (simp add: mated_def position_after_def)

lemma make_move_accepted:
  assumes wf: "wf_board (board s)" and un: "game_state s = UNFINISHED" and ne: "xcor \<noteq> ycor"
    and m: "m \<in> set (get_all_possible_moves s)" "legal s m" "same_squares m xcor ycor"
  shows "make_move s xcor ycor = (True, commit_move (snd (get_valid_moves s)) m)"
  using find_legal_move_exists [OF wf m] un ne get_valid_moves_frame(3) [OF wf]
  by (simp add: make_move_result)

lemma make_move_rejected:
  assumes wf: "wf_board (board s)"
    and no: "game_state s \<noteq> UNFINISHED
             \<or> (xcor \<noteq> ycor \<and> \<not> list_ex (\<lambda>m. same_squares m xcor ycor) (fst (get_valid_moves s)))"
  shows "make_move s xcor ycor = (False, snd (get_valid_moves s))"
  using no get_valid_moves_frame(3) [OF wf]
    find_None_list_ex [of "\<lambda>m. same_squares m xcor ycor" "fst (get_valid_moves s)"]
  by (auto simp: make_move_result)

text \<open>Every accepted request with distinct squares commits the legal move on those squares.\<close>

lemma make_move_True_cases:
  assumes wf: "wf_board (board s)" and ne: "xcor \<noteq> ycor" and ok: "fst (make_move s xcor ycor) = True"
  shows "game_state s = UNFINISHED"
    and "Move xcor ycor (board s) \<in> set (get_all_possible_moves s)"
    and "legal s (Move xcor ycor (board s))"
    and "make_move s xcor ycor = (True, commit_move (snd (get_valid_moves s)) (Move xcor ycor (board s)))"
proof -
  show un: "game_state s = UNFINISHED"
    using ok get_valid_moves_frame(3) [OF wf] by (auto simp: make_move_result split: if_splits)
  obtain m where f: "find (\<lambda>m. same_squares m xcor ycor) (fst (get_valid_moves s)) = Some m"
    using ok ne un get_valid_moves_frame(3) [OF wf]
    by (auto simp: make_move_result split: if_splits option.splits)
  note fm = find_legal_move [OF wf f]
  show "Move xcor ycor (board s) \<in> set (get_all_possible_moves s)" using fm(1,2) by simp
  show "legal s (Move xcor ycor (board s))" using fm(1,3) by simp
  show "make_move s xcor ycor = (True, commit_move (snd (get_valid_moves s)) (Move xcor ycor (board s)))"
    using f fm(1) ne un get_valid_moves_frame(3) [OF wf] by (simp add: make_move_result)
qed

lemma make_move_True_fields:
  assumes wf: "wf_board (board s)" and ne: "xcor \<noteq> ycor" and ok: "fst (make_move s xcor ycor) = True"
  defines "m \<equiv> Move xcor ycor (board s)"
  shows "board (snd (make_move s xcor ycor)) = apply_to_board m (board s)"
    and "moveLog (snd (make_move s xcor ycor)) = moveLog s @ [m]"
    and "player_turn (snd (make_move s xcor ycor))
         = (if mated s m then player_turn s else other (player_turn s))"
    and "game_state (snd (make_move s xcor ycor))
         = (if mated s m then won_by (player_turn s) else UNFINISHED)"
proof -
  let ?s0 = "snd (get_valid_moves s)"
  note f0 = get_valid_moves_frame [OF wf]
  have wf0: "wf_board (board ?s0)" using wf f0 by simp
  have mm: "mated ?s0 m = mated s m" by (rule mated_cong) (simp_all add: f0)
  note c = make_move_True_cases [OF wf ne ok, folded m_def]
  note cf = commit_move_fields [OF wf0, of m]
  show "board (snd (make_move s xcor ycor)) = apply_to_board m (board s)"
    using c(4) cf(1) f0 by simp
  show "moveLog (snd (make_move s xcor ycor)) = moveLog s @ [m]"
    using c(4) cf(2) f0 by simp
  show "player_turn (snd (make_move s xcor ycor))
         = (if mated s m then player_turn s else other (player_turn s))"
    using c(4) cf(3) f0 mm by simp
  show "game_state (snd (make_move s xcor ycor))
         = (if mated s m then won_by (player_turn s) else UNFINISHED)"
    using c(4) c(1) cf(4) f0 mm by simp
qed

section \<open>Undo\<close>

lemma undo_move_after:
  assumes "moveLog t = l @ [m]"
  shows "board (undo_move t)
         = set_cell (set_cell (board t) (startRow m) (startCol m) (pieceMoved m))
             (endRow m) (endCol m) (pieceCaptured m)"
    and "moveLog (undo_move t) = l"
    and "player_turn (undo_move t) = other (player_turn t)"
    and "game_state (undo_move t) = game_state t"
  using assms by (simp_all add: undo_move_def Let_def)

lemma undo_move_empty: "moveLog t = [] \<Longrightarrow> undo_move t = t"
  by (simp add: undo_move_def)

text \<open>
  After an accepted move with distinct squares, undo restores the board and the log; the
  side to move is restored exactly when the move did not give checkmate.
\<close>

lemma make_move_undo_move:
  assumes wf: "wf_board (board s)" and ne: "xcor \<noteq> ycor" and ok: "fst (make_move s xcor ycor) = True"
  shows "board (undo_move (snd (make_move s xcor ycor))) = board s"
    and "moveLog (undo_move (snd (make_move s xcor ycor))) = moveLog s"
    and "player_turn (undo_move (snd (make_move s xcor ycor)))
         = (if mated s (Move xcor ycor (board s)) then other (player_turn s) else player_turn s)"
proof -
  let ?m = "Move xcor ycor (board s)"
  note f = make_move_True_fields [OF wf ne ok]
  note u = undo_move_after [OF f(2)]
  have pk: "pseudo_ok s ?m"
    using make_move_True_cases(2) [OF wf ne ok] by (rule get_all_possible_moves_ok)
  show "board (undo_move (snd (make_move s xcor ycor))) = board s"
    using u(1) f(1) restore_board [OF wf pk refl] by simp
  show "moveLog (undo_move (snd (make_move s xcor ycor))) = moveLog s"
    using u(2) by simp
  show "player_turn (undo_move (snd (make_move s xcor ycor)))
         = (if mated s ?m then other (player_turn s) else player_turn s)"
    using u(3) f(3) by simp
qed

text \<open>No legal move starts on a square that does not hold a piece of the side to move.\<close>

lemma no_legal_move_from_foreign_square:
  assumes wf: "wf_board (board s)"
    and "side_of (cell_at (board s) (fst xcor) (snd xcor)) \<noteq> Some (player_turn s)"
  shows "\<not> list_ex (\<lambda>m. same_squares m xcor ycor) (fst (get_valid_moves s))"
proof
  assume "list_ex (\<lambda>m. same_squares m xcor ycor) (fst (get_valid_moves s))"
  then obtain m where m: "m \<in> set (get_all_possible_moves s)" "same_squares m xcor ycor"
    using wf by (auto simp: get_valid_moves_result list_ex_iff)
  from pseudo_ok_fields(5) [OF get_all_possible_moves_ok [OF m(1)]] m(2) assms(2)
  show False by (simp add: same_squares_def)
qed

section \<open>The concrete positions, evaluated\<close>

lemma wf_initial_board: "wf_board initial_board"
  by (simp add: wf_board_def initial_board_def)

lemma wf_mate_board: "wf_board mate_board"
  by (simp add: wf_board_def mate_board_def)

lemma mate_game_fields:
  "board mate_game = mate_board" "player_turn mate_game = RED"
  "game_state mate_game = UNFINISHED" "moveLog mate_game = []"
  by (simp_all add: mate_game_def position_def)

lemma mate_pseudo: "Move (7, 3) (8, 3) mate_board \<in> set (get_all_possible_moves mate_game)"
  by code_simp

lemma mate_legal: "legal mate_game (Move (7, 3) (8, 3) mate_board)"
  by code_simp

lemma mate_no_reply:
  "filter (legal (position_after mate_game (7, 3) (8, 3)))
     (get_all_possible_moves (position_after mate_game (7, 3) (8, 3))) = []"
  by code_simp

lemma mate_in_check:
  "fst (in_check (position_after mate_game (7, 3) (8, 3))) = Some True"
  by code_simp

lemma mate_accepted: "fst (make_move mate_game (7, 3) (8, 3)) = True"
proof -
  have "make_move mate_game (7, 3) (8, 3)
      = (True, commit_move (snd (get_valid_moves mate_game)) (Move (7, 3) (8, 3) mate_board))"
  proof (rule make_move_accepted)
    show "same_squares (Move (7, 3) (8, 3) mate_board) (7, 3) (8, 3)"
      by (simp add: same_squares_def Move_def)
  qed (simp_all add: mate_game_fields wf_mate_board mate_pseudo mate_legal)
  then show ?thesis by simp
qed

lemma wf_position_after: "wf_board (board s) \<Longrightarrow> wf_board (board (position_after s xcor ycor))"
  by (simp add: position_after_def position_def)

lemma mate_no_legal_reply: "fst (get_valid_moves (position_after mate_game (7, 3) (8, 3))) = []"
proof -
  have "wf_board (board (position_after mate_game (7, 3) (8, 3)))"
    by (rule wf_position_after) (simp add: mate_game_fields wf_mate_board)
  from get_valid_moves_result [OF this] mate_no_reply show ?thesis by simp
qed

lemma mate_mated: "mated mate_game (Move (7, 3) (8, 3) (board mate_game))"
  using mate_no_legal_reply mate_in_check by (simp add: mated_position_after)

section \<open>Claims about pseudo moves\<close>

text \<open>
  C10. For every board and side to move, no move returned by
  \<^verbatim>\<open>get_all_possible_moves\<close> ends on a square occupied by a piece of the moving
  side, and the origin and the destination of every returned move lie on the grid of
  rows 0 to 9 and columns 0 to 8.
\<close>

theorem pseudo_moves_on_grid_off_own_pieces:
  assumes "m \<in> set (get_all_possible_moves s)"
  shows "side_of (cell_at (board s) (endRow m) (endCol m)) \<noteq> Some (player_turn s)
       \<and> 0 \<le> startRow m \<and> startRow m \<le> 9 \<and> 0 \<le> startCol m \<and> startCol m \<le> 8
       \<and> 0 \<le> endRow m \<and> endRow m \<le> 9 \<and> 0 \<le> endCol m \<and> endCol m \<le> 8"
  using pseudo_ok_fields(1,2,6) [OF get_all_possible_moves_ok [OF assms]]
  by (simp add: on_board_def)

theorem pseudo_moves_on_grid_off_own_pieces_witness:
  "Move (0, 1) (3, 3) initial_board \<in> set (get_all_possible_moves initial_game)
   \<and> side_of (cell_at (board initial_game) 3 3) \<noteq> Some (player_turn initial_game)
   \<and> endRow (Move (0, 1) (3, 3) initial_board) = 3"
proof -
  have h: "Move (0, 1) (3, 3) initial_board \<in> set (get_all_possible_moves initial_game)"
    by code_simp
  from pseudo_moves_on_grid_off_own_pieces [OF h] h show ?thesis
    by (simp add: Move_def)
qed

section \<open>Claims about the legality filter and move application\<close>

text \<open>
  C8. \<^verbatim>\<open>get_valid_moves\<close> and \<^verbatim>\<open>square_under_attack\<close> return with the board and the
  side to move equal to their values at entry: the simulated moves are written back and the
  temporary turn flips cancel.
\<close>

theorem legality_filter_restores_board_and_turn:
  assumes "wf_board (board s)"
  shows "board (snd (get_valid_moves s)) = board s
       \<and> player_turn (snd (get_valid_moves s)) = player_turn s
       \<and> board (snd (square_under_attack s r c)) = board s
       \<and> player_turn (snd (square_under_attack s r c)) = player_turn s"
  using get_valid_moves_frame(1,2) [OF assms] by simp

theorem legality_filter_restores_board_and_turn_witness:
  "wf_board (board initial_game)
   \<and> board (snd (get_valid_moves initial_game)) = initial_board
   \<and> player_turn (snd (get_valid_moves initial_game)) = RED
   \<and> board (snd (square_under_attack initial_game 1 4)) = initial_board
   \<and> player_turn (snd (square_under_attack initial_game 1 4)) = RED"
proof -
  have h: "wf_board (board initial_game)"
    by (simp add: initial_game_def wf_initial_board)
  from legality_filter_restores_board_and_turn [OF h, of 1 4] h show ?thesis
    by (simp add: initial_game_def)
qed

text \<open>
  C9. In an UNFINISHED game, \<^verbatim>\<open>make_move\<close> with origin equal to destination returns
  true and hands the turn to the other side, whatever the named square holds.
\<close>

theorem noop_move_passes_the_turn:
  assumes "wf_board (board s)" and "game_state s = UNFINISHED"
  shows "fst (make_move s xcor xcor) = True
       \<and> player_turn (snd (make_move s xcor xcor)) = other (player_turn s)"
  using assms get_valid_moves_frame(2,3) [OF assms(1)] by (simp add: make_move_result)

theorem noop_move_passes_the_turn_witness:
  "wf_board (board initial_game) \<and> game_state initial_game = UNFINISHED
   \<and> cell_at (board initial_game) 4 4 = None
   \<and> fst (make_move initial_game (4, 4) (4, 4)) = True
   \<and> player_turn (snd (make_move initial_game (4, 4) (4, 4))) = BLUE"
proof -
  have h: "wf_board (board initial_game)" "game_state initial_game = UNFINISHED"
    by (simp_all add: initial_game_def wf_initial_board)
  have e: "cell_at (board initial_game) 4 4 = None"
    by (simp add: initial_game_def initial_board_def cell_at_def)
  from noop_move_passes_the_turn [OF h, of "(4, 4)"] h e show ?thesis
    by (simp add: initial_game_def)
qed

text \<open>
  C5. When the requested squares (origin different from destination) match no move of the
  current legal-move list, or the game is not UNFINISHED, \<^verbatim>\<open>make_move\<close> returns false
  and the board, the move history, the side to move and the game state are as at entry.
\<close>

theorem rejected_request_changes_nothing:
  assumes "wf_board (board s)"
    and "game_state s \<noteq> UNFINISHED
         \<or> (xcor \<noteq> ycor \<and> \<not> list_ex (\<lambda>m. same_squares m xcor ycor) (fst (get_valid_moves s)))"
  shows "fst (make_move s xcor ycor) = False
       \<and> board (snd (make_move s xcor ycor)) = board s
       \<and> moveLog (snd (make_move s xcor ycor)) = moveLog s
       \<and> player_turn (snd (make_move s xcor ycor)) = player_turn s
       \<and> game_state (snd (make_move s xcor ycor)) = game_state s"
  using make_move_rejected [OF assms] get_valid_moves_frame [OF assms(1)] by simp

theorem rejected_request_changes_nothing_witness:
  "wf_board (board initial_game)
   \<and> (4, 4) \<noteq> ((5, 4) :: int \<times> int)
   \<and> \<not> list_ex (\<lambda>m. same_squares m (4, 4) (5, 4)) (fst (get_valid_moves initial_game))
   \<and> fst (make_move initial_game (4, 4) (5, 4)) = False
   \<and> board (snd (make_move initial_game (4, 4) (5, 4))) = initial_board
   \<and> moveLog (snd (make_move initial_game (4, 4) (5, 4))) = []
   \<and> player_turn (snd (make_move initial_game (4, 4) (5, 4))) = RED
   \<and> game_state (snd (make_move initial_game (4, 4) (5, 4))) = UNFINISHED"
proof -
  have h: "wf_board (board initial_game)"
    by (simp add: initial_game_def wf_initial_board)
  have e: "side_of (cell_at (board initial_game) (fst (4, 4)) (snd (4, 4)))
           \<noteq> Some (player_turn initial_game)"
    by (simp add: initial_game_def initial_board_def cell_at_def)
  have n: "\<not> list_ex (\<lambda>m. same_squares m (4, 4) (5, 4)) (fst (get_valid_moves initial_game))"
    using h e by (rule no_legal_move_from_foreign_square)
  from rejected_request_changes_nothing [OF h, of "(4, 4)" "(5, 4)"] h n show ?thesis
    by (simp add: initial_game_def)
qed

text \<open>
  C2. In an UNFINISHED game, after \<^verbatim>\<open>make_move\<close> has applied a move (origin different
  from destination) that leaves the side now to move without a legal move: if that side is in
  check, the game state becomes the win of the side that just moved; if it is not in check,
  the game state stays UNFINISHED.
\<close>

theorem no_reply_is_mate_or_unfinished:
  assumes "wf_board (board s)" and "game_state s = UNFINISHED" and "xcor \<noteq> ycor"
    and "fst (make_move s xcor ycor) = True"
    and "fst (get_valid_moves (position_after s xcor ycor)) = []"
  shows "(fst (in_check (position_after s xcor ycor)) = Some True
            \<longrightarrow> game_state (snd (make_move s xcor ycor)) = won_by (player_turn s))
       \<and> (fst (in_check (position_after s xcor ycor)) \<noteq> Some True
            \<longrightarrow> game_state (snd (make_move s xcor ycor)) = UNFINISHED)"
  using make_move_True_fields(4) [OF assms(1,3,4)] assms(5)
  by (simp add: mated_position_after)

theorem no_reply_is_mate_or_unfinished_witness:
  "wf_board (board mate_game) \<and> game_state mate_game = UNFINISHED
   \<and> fst (make_move mate_game (7, 3) (8, 3)) = True
   \<and> fst (get_valid_moves (position_after mate_game (7, 3) (8, 3))) = []
   \<and> fst (in_check (position_after mate_game (7, 3) (8, 3))) = Some True
   \<and> game_state (snd (make_move mate_game (7, 3) (8, 3))) = RED_WON"
proof -
  have h: "wf_board (board mate_game)" "game_state mate_game = UNFINISHED"
    "(7, 3) \<noteq> ((8, 3) :: int \<times> int)"
    by (simp_all add: mate_game_fields wf_mate_board)
  from no_reply_is_mate_or_unfinished [OF h mate_accepted mate_no_legal_reply]
    h mate_accepted mate_no_legal_reply mate_in_check
  show ?thesis by (simp add: mate_game_fields)
qed

text \<open>
  C3. The claim: every \<^verbatim>\<open>make_move\<close> that returns true leaves the side to move opposite
  to the side to move at entry, also when the move gives checkmate. In the checkmate branch
  the code flips the turn twice: in the position \<open>mate_game\<close>, RED to move, the accepted
  move from row 7, column 3 to row 8, column 3 ends the game as RED_WON and leaves RED to move.
\<close>

theorem checkmate_move_leaves_turn_with_mover:
  "fst (make_move mate_game (7, 3) (8, 3)) = True
   \<and> game_state (snd (make_move mate_game (7, 3) (8, 3))) = RED_WON
   \<and> player_turn mate_game = RED
   \<and> player_turn (snd (make_move mate_game (7, 3) (8, 3))) = RED"
proof -
  have h: "wf_board (board mate_game)" "(7, 3) \<noteq> ((8, 3) :: int \<times> int)"
    by (simp_all add: mate_game_fields wf_mate_board)
  from make_move_True_fields(3,4) [OF h mate_accepted] mate_mated mate_accepted
  show ?thesis by (simp add: mate_game_fields)
qed

text \<open>
  C4. The claim: an accepted \<^verbatim>\<open>make_move\<close> (origin different from destination) followed
  by \<^verbatim>\<open>undo_move\<close> restores the board, the side to move and the length of the history.
  After the mating move in \<open>mate_game\<close> the undo restores the board and the history, and
  hands the turn to BLUE although RED was to move before the move.
\<close>

theorem undo_after_checkmate_changes_side_to_move:
  "fst (make_move mate_game (7, 3) (8, 3)) = True
   \<and> board (undo_move (snd (make_move mate_game (7, 3) (8, 3)))) = board mate_game
   \<and> length (moveLog (undo_move (snd (make_move mate_game (7, 3) (8, 3)))))
       = length (moveLog mate_game)
   \<and> player_turn mate_game = RED
   \<and> player_turn (undo_move (snd (make_move mate_game (7, 3) (8, 3)))) = BLUE"
proof -
  have h: "wf_board (board mate_game)" "(7, 3) \<noteq> ((8, 3) :: int \<times> int)"
    by (simp_all add: mate_game_fields wf_mate_board)
  from make_move_undo_move [OF h mate_accepted] mate_mated mate_accepted
  show ?thesis by (simp add: mate_game_fields)
qed

end
